theory Spec2Isabelle
  imports Complex_Main
begin

section \<open>The smoothing voter of \<open>custom_components/smoothing_voter/sensor.py\<close>\<close>

text \<open>
  Readings are Python floats in the source. A finite double is a real number, so readings
  and thresholds are values of \<^typ>\<open>real\<close>; the comparisons, \<open>sorted\<close>, \<open>max\<close>, \<open>min\<close>
  and \<open>abs\<close> of the source are exact on doubles and are the ones of the reals. The
  subtraction of two doubles is not exact: Python rounds the difference to a double. The
  model does not fix that rounding. Every function that subtracts takes the subtraction
  as its first argument \<open>fsub\<close>, and the theorems hold for every function \<open>fsub\<close>, hence
  for the rounded subtraction of the machine as well as for the exact one. NaN and the
  infinities are not represented. Python's \<open>None\<close> is \<^term>\<open>None\<close>, a raised exception is
  \<open>Inl\<close> of the exception's class, and the calculation type is the string the source
  returns.
\<close>

subsection \<open>Python built-ins used by the source\<close>

datatype error = ValueError | IndexError

text \<open>\<open>xs[lo:hi]\<close> for \<open>0 \<le> lo \<le> hi\<close>: slicing clamps at the end of the list and never raises.\<close>

definition py_slice :: "'a list \<Rightarrow> nat \<Rightarrow> nat \<Rightarrow> 'a list" where
  "py_slice xs lo hi = take (hi - lo) (drop lo xs)"

text \<open>\<open>xs[i]\<close> for \<open>i \<ge> 0\<close>: raises \<open>IndexError\<close> out of range.\<close>

definition py_index :: "'a list \<Rightarrow> nat \<Rightarrow> error + 'a" where
  "py_index xs i = (if i < length xs then Inr (xs ! i) else Inl IndexError)"

text \<open>
  \<open>max(xs)\<close> and \<open>min(xs)\<close>: \<open>ValueError\<close> on an empty sequence; otherwise the
  first element is the candidate and a later element replaces it only when it is
  strictly greater (strictly smaller).
\<close>

fun py_max :: "real list \<Rightarrow> error + real" where
  "py_max [] = Inl ValueError"
| "py_max (x # xs) = Inr (fold (\<lambda>item max_item. if item > max_item then item else max_item) xs x)"

fun py_min :: "real list \<Rightarrow> error + real" where
  "py_min [] = Inl ValueError"
| "py_min (x # xs) = Inr (fold (\<lambda>item min_item. if item < min_item then item else min_item) xs x)"

text \<open>\<open>min(xs, key=f)\<close>: as \<open>min\<close>, comparing the keys; the first minimal element wins.\<close>

fun py_min_key :: "('a \<Rightarrow> real) \<Rightarrow> 'a list \<Rightarrow> error + 'a" where
  "py_min_key key [] = Inl ValueError"
| "py_min_key key (x # xs) =
     Inr (fold (\<lambda>item min_item. if key item < key min_item then item else min_item) xs x)"

text \<open>\<open>range(k)\<close> for an integer \<open>k\<close>: empty when \<open>k \<le> 0\<close>.\<close>

definition py_range :: "int \<Rightarrow> nat list" where
  "py_range k = [0..<nat k]"

subsection \<open>\<open>smoothing_voter\<close>\<close>

text \<open>The window length, \<open>m = (n + 1) // 2\<close> (line 44).\<close>

definition window_length :: "nat \<Rightarrow> nat" where
  "window_length n = (n + 1) div 2"

text \<open>
  The test of line 47, \<open>max(subset) - min(subset) <= voter_threshold\<close>, on the
  difference as Python computes it.
\<close>

definition stable_subset :: "(real \<Rightarrow> real \<Rightarrow> real) \<Rightarrow> real list \<Rightarrow> real \<Rightarrow> error + bool" where
  "stable_subset fsub subset' voter_threshold =
     (case py_max subset' of
        Inl e \<Rightarrow> Inl e
      | Inr mx \<Rightarrow>
          (case py_min subset' of
             Inl e \<Rightarrow> Inl e
           | Inr mn \<Rightarrow> Inr (fsub mx mn \<le> voter_threshold)))"

text \<open>
  The \<open>for\<close> loop of lines 45 to 49 over the offsets still to visit. \<open>Inr (Some r)\<close>
  is the \<open>return r\<close> inside the loop, \<open>Inr None\<close> is the loop running to its end.
\<close>

fun window_loop ::
  "(real \<Rightarrow> real \<Rightarrow> real) \<Rightarrow> real list \<Rightarrow> nat \<Rightarrow> real \<Rightarrow> nat list \<Rightarrow> error + (real option \<times> string) option" where
  "window_loop fsub sorted_inputs m voter_threshold [] = Inr None"
| "window_loop fsub sorted_inputs m voter_threshold (i # rest) =
     (let subset' = py_slice sorted_inputs i (i + m) in
      case stable_subset fsub subset' voter_threshold of
        Inl e \<Rightarrow> Inl e
      | Inr True \<Rightarrow>
          (case py_index subset' (m div 2) of
             Inl e \<Rightarrow> Inl e
           | Inr v \<Rightarrow> Inr (Some (Some v, ''median'')))
      | Inr False \<Rightarrow> window_loop fsub sorted_inputs m voter_threshold rest)"

definition smoothing_voter ::
  "(real \<Rightarrow> real \<Rightarrow> real) \<Rightarrow> real list \<Rightarrow> real option \<Rightarrow> real \<Rightarrow> real \<Rightarrow> error + (real option \<times> string)" where
  "smoothing_voter fsub inputs prev_output voter_threshold smoothing_threshold =
     (let n = length inputs in
      if n < 3 then Inl ValueError
      else
        let sorted_inputs = sort inputs;
            m = window_length n
        in case window_loop fsub sorted_inputs m voter_threshold
                  (py_range (int n - int m + 1)) of
             Inl e \<Rightarrow> Inl e
           | Inr (Some r) \<Rightarrow> Inr r
           | Inr None \<Rightarrow>
               (case prev_output of
                  None \<Rightarrow>
                    (case py_index sorted_inputs (n div 2) of
                       Inl e \<Rightarrow> Inl e
                     | Inr v \<Rightarrow> Inr (Some v, ''median''))
                | Some p \<Rightarrow>
                    (case py_min_key (\<lambda>x. \<bar>fsub x p\<bar>) inputs of
                       Inl e \<Rightarrow> Inl e
                     | Inr closest_input \<Rightarrow>
                         if \<bar>fsub closest_input p\<bar> \<le> smoothing_threshold
                         then Inr (Some closest_input, ''smoothed'')
                         else Inr (None, ''none''))))"

subsection \<open>\<open>SmoothingVoterSensorGroup\<close>\<close>

text \<open>
  The fields of the sensor group that \<open>async_update_group_state\<close> reads or writes.
\<close>

record sensor_group =
  self_voter_threshold :: real
  self_smoothing_threshold :: real
  self_prev_output :: "real option"
  self_calculation_type :: string
  self_attr_available :: bool
  self_attr_native_value :: "real option"

text \<open>
  What one entity contributes in the loop of lines 104 to 122. The state machine of
  Home Assistant and the unit converters are not part of this repository, so the
  outcome of reading one entity is the input of the model: \<open>NoState\<close> when
  \<open>hass.states.get\<close> returns \<open>None\<close>, \<open>Skipped\<close> when \<open>float\<close> or the conversion
  raises \<open>ValueError\<close> or \<open>KeyError\<close> (caught, \<open>continue\<close>), \<open>Numeric x\<close> when
  \<open>x\<close> is appended to \<open>sensor_values\<close>.
\<close>

datatype entity_reading = NoState | Skipped | Numeric real

fun gather_values :: "entity_reading list \<Rightarrow> real list \<times> bool \<Rightarrow> real list \<times> bool" where
  "gather_values [] (sensor_values, any_valid) = (sensor_values, any_valid)"
| "gather_values (NoState # rest) (sensor_values, any_valid) =
     gather_values rest (sensor_values, any_valid)"
| "gather_values (Skipped # rest) (sensor_values, any_valid) =
     gather_values rest (sensor_values, any_valid)"
| "gather_values (Numeric numeric_state # rest) (sensor_values, any_valid) =
     gather_values rest (sensor_values @ [numeric_state], True)"

text \<open>
  \<open>async_update_group_state\<close> from line 101 on, with the function called at line 132 as
  the argument \<open>voter\<close>. The two calls into the base class of lines 98 and 99 belong to
  Home Assistant; they do not touch the fields of the record and are left out. The
  \<open>except ValueError\<close> of line 142 catches that class only; any other exception leaves
  the method (\<open>Inl\<close>).
\<close>

definition update_group_state_calling ::
  "(real list \<Rightarrow> real option \<Rightarrow> real \<Rightarrow> real \<Rightarrow> error + (real option \<times> string)) \<Rightarrow>
   entity_reading list \<Rightarrow> sensor_group \<Rightarrow> error + sensor_group" where
  "update_group_state_calling voter readings self =
     (case gather_values readings ([], False) of
        (sensor_values, any_valid) \<Rightarrow>
          let self1 = self\<lparr>self_attr_available := any_valid \<and> length sensor_values \<ge> 3\<rparr> in
          if \<not> self_attr_available self1
          then Inr (self1\<lparr>self_attr_native_value := None, self_calculation_type := ''none''\<rparr>)
          else
            (case voter sensor_values (self_prev_output self1)
                    (self_voter_threshold self1) (self_smoothing_threshold self1) of
               Inr (new_val, calc_type) \<Rightarrow>
                 let self2 = self1\<lparr>self_attr_native_value := new_val,
                                   self_calculation_type := calc_type\<rparr>
                 in if new_val \<noteq> None
                    then Inr (self2\<lparr>self_prev_output := new_val\<rparr>)
                    else Inr self2
             | Inl ValueError \<Rightarrow>
                 Inr (self1\<lparr>self_attr_native_value := None, self_calculation_type := ''none''\<rparr>)
             | Inl e \<Rightarrow> Inl e))"

text \<open>The method itself: the function called at line 132 is \<open>smoothing_voter\<close>.\<close>

definition async_update_group_state ::
  "(real \<Rightarrow> real \<Rightarrow> real) \<Rightarrow> entity_reading list \<Rightarrow> sensor_group \<Rightarrow> error + sensor_group" where
  "async_update_group_state fsub readings self =
     update_group_state_calling (smoothing_voter fsub) readings self"

subsection \<open>The nearest reading, in the words of the specification\<close>

text \<open>
  Index \<open>k\<close> holds an input at minimum absolute distance to the previous output
  \<open>p\<close>, and it is the first such index in the original input order. The distance of an
  input \<open>x\<close> is the one line 53 computes, \<open>abs(x - prev_output)\<close>.
\<close>

definition closest_first :: "(real \<Rightarrow> real \<Rightarrow> real) \<Rightarrow> real list \<Rightarrow> real \<Rightarrow> nat \<Rightarrow> bool" where
  "closest_first fsub inputs p k \<longleftrightarrow>
     k < length inputs \<and>
     (\<forall>j\<in>{0..<length inputs}. \<bar>fsub (inputs ! k) p\<bar> \<le> \<bar>fsub (inputs ! j) p\<bar>) \<and>
     (\<forall>j\<in>{0..<k}. \<bar>fsub (inputs ! k) p\<bar> < \<bar>fsub (inputs ! j) p\<bar>)"

section \<open>Auxiliary facts\<close>

subsection \<open>The built-ins on sorted windows\<close>

lemma fold_max_eq:
  "fold (\<lambda>item max_item. if item > max_item then item else max_item) xs (x::real) = Max (set (x # xs))"
proof -
  have "(\<lambda>item max_item. if item > max_item then item else max_item) = (max :: real \<Rightarrow> real \<Rightarrow> real)"
    by (intro ext) (simp add: max_def)
  then show ?thesis by (simp only: Max.set_eq_fold)
qed

lemma fold_min_eq:
  "fold (\<lambda>item min_item. if item < min_item then item else min_item) xs (x::real) = Min (set (x # xs))"
proof -
  have "(\<lambda>item min_item. if item < min_item then item else min_item) = (min :: real \<Rightarrow> real \<Rightarrow> real)"
    by (intro ext) (simp add: min_def)
  then show ?thesis by (simp only: Min.set_eq_fold)
qed

lemma py_max_nonempty: "xs \<noteq> [] \<Longrightarrow> py_max xs = Inr (Max (set xs))"
  by (cases xs) (simp_all only: py_max.simps fold_max_eq, simp)

lemma py_min_nonempty: "xs \<noteq> [] \<Longrightarrow> py_min xs = Inr (Min (set xs))"
  by (cases xs) (simp_all only: py_min.simps fold_min_eq, simp)

lemma sorted_Max_last: "sorted xs \<Longrightarrow> xs \<noteq> [] \<Longrightarrow> Max (set xs) = last (xs :: real list)"
proof (rule Max_eqI)
  fix y assume "sorted xs" "xs \<noteq> []" "y \<in> set xs"
  then obtain k where "k < length xs" "y = xs ! k" by (auto simp: in_set_conv_nth)
  with \<open>sorted xs\<close> \<open>xs \<noteq> []\<close> show "y \<le> last xs"
    by (simp add: last_conv_nth sorted_nth_mono)
qed simp_all

lemma sorted_Min_hd: "sorted xs \<Longrightarrow> xs \<noteq> [] \<Longrightarrow> Min (set xs) = hd (xs :: real list)"
proof (rule Min_eqI)
  fix y assume "sorted xs" "xs \<noteq> []" "y \<in> set xs"
  then obtain k where "k < length xs" "y = xs ! k" by (auto simp: in_set_conv_nth)
  with \<open>sorted xs\<close> \<open>xs \<noteq> []\<close> show "hd xs \<le> y"
    by (simp add: hd_conv_nth sorted_nth_mono)
qed simp_all

lemma slice_length: "i + m \<le> length xs \<Longrightarrow> length (py_slice xs i (i + m)) = m"
  by (simp add: py_slice_def)

lemma slice_nth: "i + m \<le> length xs \<Longrightarrow> k < m \<Longrightarrow> py_slice xs i (i + m) ! k = xs ! (i + k)"
  by (simp add: py_slice_def)

lemma slice_sorted: "sorted xs \<Longrightarrow> sorted (py_slice xs i (i + m))"
  by (simp add: py_slice_def sorted_wrt_take sorted_wrt_drop)

lemma stable_subset_window:
  assumes "sorted xs" "0 < m" "i + m \<le> length xs"
  shows "stable_subset fsub (py_slice xs i (i + m)) t = Inr (fsub (xs ! (i + m - 1)) (xs ! i) \<le> t)"
proof -
  let ?w = "py_slice xs i (i + m)"
  have len: "length ?w = m" using assms by (simp add: slice_length)
  then have ne: "?w \<noteq> []" using assms by auto
  have s: "sorted ?w" using assms by (simp add: slice_sorted)
  have mx: "py_max ?w = Inr (xs ! (i + m - 1))"
    using ne s len assms slice_nth [of i m xs "m - 1"]
    by (simp add: py_max_nonempty sorted_Max_last last_conv_nth)
  have mn: "py_min ?w = Inr (xs ! i)"
    using ne s len assms slice_nth [of i m xs 0]
    by (simp add: py_min_nonempty sorted_Min_hd hd_conv_nth)
  show ?thesis by (simp add: stable_subset_def mx mn)
qed

lemma index_window:
  assumes "0 < m" "i + m \<le> length xs"
  shows "py_index (py_slice xs i (i + m)) (m div 2) = Inr (xs ! (i + m div 2))"
  using assms by (simp add: py_index_def slice_length slice_nth)

lemma window_loop_find:
  assumes "sorted xs" "0 < m" "\<forall>i\<in>set offs. i + m \<le> length xs"
  shows "window_loop fsub xs m t offs =
           Inr (map_option (\<lambda>i. (Some (xs ! (i + m div 2)), ''median''))
                  (find (\<lambda>i. fsub (xs ! (i + m - 1)) (xs ! i) \<le> t) offs))"
  using assms
proof (induction offs)
  case Nil
  then show ?case by simp
next
  case (Cons i rest)
  then show ?case
    by (simp add: stable_subset_window index_window)
qed

lemma window_length_bounds: "3 \<le> n \<Longrightarrow> 0 < window_length n \<and> window_length n \<le> n \<and> 2 \<le> window_length n"
  unfolding window_length_def by arith

lemma range_offsets: "py_range (int n - int (window_length n) + 1) = [0..<n - window_length n + 1]"
proof -
  have "window_length n \<le> n" unfolding window_length_def by arith
  then have "nat (int n - int (window_length n) + 1) = n - window_length n + 1" by arith
  then show ?thesis by (simp add: py_range_def)
qed

lemma find_upt_first:
  assumes "i < k" "P i" "\<forall>j<i. \<not> P j"
  shows "find P [0..<k] = Some i"
  using assms by (auto simp: find_Some_iff intro!: exI [of _ i])

lemma find_upt_none:
  assumes "\<forall>j<k. \<not> P j"
  shows "find P [0..<k] = None"
  using assms by (simp add: find_None_iff)

subsection \<open>The nearest reading\<close>

lemma fold_min_key_first:
  fixes key :: "'a \<Rightarrow> real"
  shows "\<exists>k<length (x # xs).
           fold (\<lambda>item min_item. if key item < key min_item then item else min_item) xs x = (x # xs) ! k \<and>
           (\<forall>j<length (x # xs). key ((x # xs) ! k) \<le> key ((x # xs) ! j)) \<and>
           (\<forall>j<k. key ((x # xs) ! k) < key ((x # xs) ! j))"
proof (induction xs rule: rev_induct)
  case Nil
  then show ?case by simp
next
  case (snoc y ys)
  let ?g = "\<lambda>item min_item. if key item < key min_item then item else min_item"
  let ?zs = "x # ys"
  from snoc obtain k where k: "k < length ?zs" "fold ?g ys x = ?zs ! k"
    and le: "\<forall>j<length ?zs. key (?zs ! k) \<le> key (?zs ! j)"
    and lt: "\<forall>j<k. key (?zs ! k) < key (?zs ! j)" by blast
  have app: "x # ys @ [y] = ?zs @ [y]" by simp
  have e: "(?zs @ [y]) ! length ?zs = y" by (simp only: nth_append_length)
  show ?case
  proof (cases "key y < key (?zs ! k)")
    case True
    have "fold ?g (ys @ [y]) x = (?zs @ [y]) ! length ?zs"
      using True k by (simp del: nth_Cons_Suc)
    moreover have "\<forall>j<length (?zs @ [y]). key ((?zs @ [y]) ! length ?zs) \<le> key ((?zs @ [y]) ! j)"
    proof (intro allI impI)
      fix j assume "j < length (?zs @ [y])"
      then consider "j < length ?zs" | "j = length ?zs" by fastforce
      then show "key ((?zs @ [y]) ! length ?zs) \<le> key ((?zs @ [y]) ! j)"
      proof cases
        case 1
        then have jj: "(?zs @ [y]) ! j = ?zs ! j" by (simp only: nth_append if_True)
        have "key (?zs ! k) \<le> key (?zs ! j)" using le 1 by blast
        then show ?thesis using True unfolding e jj by linarith
      next
        case 2
        then show ?thesis by simp
      qed
    qed
    moreover have "\<forall>j<length ?zs. key ((?zs @ [y]) ! length ?zs) < key ((?zs @ [y]) ! j)"
    proof (intro allI impI)
      fix j assume 1: "j < length ?zs"
      then have jj: "(?zs @ [y]) ! j = ?zs ! j" by (simp only: nth_append if_True)
      have "key (?zs ! k) \<le> key (?zs ! j)" using le 1 by blast
      then show "key ((?zs @ [y]) ! length ?zs) < key ((?zs @ [y]) ! j)"
        using True unfolding e jj by linarith
    qed
    ultimately show ?thesis
      unfolding app by (intro exI [of _ "length ?zs"]) simp
  next
    case False
    have kk: "(?zs @ [y]) ! k = ?zs ! k" using k by (simp only: nth_append if_True)
    have "fold ?g (ys @ [y]) x = (?zs @ [y]) ! k"
      using False k unfolding kk by simp
    moreover have "\<forall>j<length (?zs @ [y]). key ((?zs @ [y]) ! k) \<le> key ((?zs @ [y]) ! j)"
    proof (intro allI impI)
      fix j assume "j < length (?zs @ [y])"
      then consider "j < length ?zs" | "j = length ?zs" by fastforce
      then show "key ((?zs @ [y]) ! k) \<le> key ((?zs @ [y]) ! j)"
      proof cases
        case 1
        then have jj: "(?zs @ [y]) ! j = ?zs ! j" by (simp only: nth_append if_True)
        show ?thesis using le 1 unfolding kk jj by blast
      next
        case 2
        show ?thesis using False unfolding kk 2 e by linarith
      qed
    qed
    moreover have "\<forall>j<k. key ((?zs @ [y]) ! k) < key ((?zs @ [y]) ! j)"
    proof (intro allI impI)
      fix j assume "j < k"
      then have "j < length ?zs" using k by simp
      then have jj: "(?zs @ [y]) ! j = ?zs ! j" by (simp only: nth_append if_True)
      show "key ((?zs @ [y]) ! k) < key ((?zs @ [y]) ! j)"
        using lt \<open>j < k\<close> unfolding kk jj by blast
    qed
    ultimately show ?thesis
      unfolding app using k by (intro exI [of _ k]) simp
  qed
qed

lemma closest_first_iff:
  "closest_first fsub inputs p k \<longleftrightarrow>
     k < length inputs \<and>
     (\<forall>j<length inputs. \<bar>fsub (inputs ! k) p\<bar> \<le> \<bar>fsub (inputs ! j) p\<bar>) \<and>
     (\<forall>j<k. \<bar>fsub (inputs ! k) p\<bar> < \<bar>fsub (inputs ! j) p\<bar>)"
  by (simp add: closest_first_def Ball_def)

lemma py_min_key_closest_first:
  assumes "inputs \<noteq> []"
  shows "\<exists>k. closest_first fsub inputs p k \<and> py_min_key (\<lambda>x. \<bar>fsub x p\<bar>) inputs = Inr (inputs ! k)"
proof -
  from assms obtain x xs where xs: "inputs = x # xs" by (cases inputs) auto
  from fold_min_key_first [where key = "\<lambda>x. \<bar>fsub x p\<bar>" and x = x and xs = xs] show ?thesis
    unfolding xs closest_first_iff py_min_key.simps by blast
qed

lemma closest_first_unique:
  assumes "closest_first fsub inputs p k" "closest_first fsub inputs p k'"
  shows "k = k'"
proof (rule ccontr)
  assume "k \<noteq> k'"
  then consider "k < k'" | "k' < k" by arith
  then show False
  proof cases
    case 1
    then have "\<bar>fsub (inputs ! k') p\<bar> < \<bar>fsub (inputs ! k) p\<bar>"
      using assms(2) unfolding closest_first_iff by blast
    moreover have "\<bar>fsub (inputs ! k) p\<bar> \<le> \<bar>fsub (inputs ! k') p\<bar>"
      using assms unfolding closest_first_iff by blast
    ultimately show False by linarith
  next
    case 2
    then have "\<bar>fsub (inputs ! k) p\<bar> < \<bar>fsub (inputs ! k') p\<bar>"
      using assms(1) unfolding closest_first_iff by blast
    moreover have "\<bar>fsub (inputs ! k') p\<bar> \<le> \<bar>fsub (inputs ! k) p\<bar>"
      using assms unfolding closest_first_iff by blast
    ultimately show False by linarith
  qed
qed

subsection \<open>The three exits of \<open>smoothing_voter\<close>\<close>

lemma smoothing_voter_short: "length inputs < 3 \<Longrightarrow> smoothing_voter fsub inputs prev t st = Inl ValueError"
  by (simp add: smoothing_voter_def)

lemma loop_of_voter:
  assumes "3 \<le> length inputs"
  shows "window_loop fsub (sort inputs) (window_length (length inputs)) t
           (py_range (int (length inputs) - int (window_length (length inputs)) + 1)) =
         Inr (map_option (\<lambda>i. (Some (sort inputs ! (i + window_length (length inputs) div 2)), ''median''))
                (find (\<lambda>i. fsub (sort inputs ! (i + window_length (length inputs) - 1)) (sort inputs ! i) \<le> t)
                   [0..<length inputs - window_length (length inputs) + 1]))"
proof -
  let ?n = "length inputs"
  let ?m = "window_length ?n"
  have b: "0 < ?m" "?m \<le> ?n" using window_length_bounds [OF assms] by simp_all
  have "\<forall>i\<in>set [0..<?n - ?m + 1]. i + ?m \<le> length (sort inputs)"
    using b by auto
  then show ?thesis
    unfolding range_offsets using b by (intro window_loop_find) simp_all
qed

lemma smoothing_voter_window:
  assumes "3 \<le> length inputs"
    and "find (\<lambda>i. fsub (sort inputs ! (i + window_length (length inputs) - 1)) (sort inputs ! i) \<le> t)
           [0..<length inputs - window_length (length inputs) + 1] = Some i"
  shows "smoothing_voter fsub inputs prev t st =
           Inr (Some (sort inputs ! (i + window_length (length inputs) div 2)), ''median'')"
  using assms by (simp add: smoothing_voter_def Let_def loop_of_voter)

lemma smoothing_voter_no_window:
  assumes "3 \<le> length inputs"
    and "find (\<lambda>i. fsub (sort inputs ! (i + window_length (length inputs) - 1)) (sort inputs ! i) \<le> t)
           [0..<length inputs - window_length (length inputs) + 1] = None"
  shows "smoothing_voter fsub inputs prev t st =
           (case prev of
              None \<Rightarrow> Inr (Some (sort inputs ! (length inputs div 2)), ''median'')
            | Some p \<Rightarrow>
                (case py_min_key (\<lambda>x. \<bar>fsub x p\<bar>) inputs of
                   Inl e \<Rightarrow> Inl e
                 | Inr closest_input \<Rightarrow>
                     if \<bar>fsub closest_input p\<bar> \<le> st
                     then Inr (Some closest_input, ''smoothed'')
                     else Inr (None, ''none'')))"
proof -
  have "length inputs div 2 < length (sort inputs)" using assms(1) by simp
  then have "py_index (sort inputs) (length inputs div 2) = Inr (sort inputs ! (length inputs div 2))"
    unfolding py_index_def by (simp only: if_True)
  then show ?thesis
    using assms by (simp add: smoothing_voter_def Let_def loop_of_voter split: option.splits)
qed

lemma find_upt_Some:
  assumes "find P [0..<k] = Some i"
  shows "i < k \<and> P i \<and> (\<forall>j<i. \<not> P j)"
proof -
  from assms obtain a where a: "a < length [0..<k]" "P ([0..<k] ! a)" "i = [0..<k] ! a"
    "\<forall>j<a. \<not> P ([0..<k] ! j)"
    unfolding find_Some_iff by blast
  from a(1) have ak: "a < k" by simp
  then have ia: "i = a" using a(3) by simp
  have "\<forall>j<a. \<not> P j"
  proof (intro allI impI)
    fix j assume "j < a"
    then have "[0..<k] ! j = j" using ak by simp
    with a(4) \<open>j < a\<close> show "\<not> P j" by metis
  qed
  with a(2) ak ia show ?thesis by simp
qed

lemma smoothing_voter_smoothed:
  assumes "3 \<le> length inputs"
    and "find (\<lambda>i. fsub (sort inputs ! (i + window_length (length inputs) - 1)) (sort inputs ! i) \<le> t)
           [0..<length inputs - window_length (length inputs) + 1] = None"
    and "closest_first fsub inputs p k"
  shows "smoothing_voter fsub inputs (Some p) t st =
           (if \<bar>fsub (inputs ! k) p\<bar> \<le> st then Inr (Some (inputs ! k), ''smoothed'')
            else Inr (None, ''none''))"
proof -
  have "inputs \<noteq> []" using assms(1) by auto
  from py_min_key_closest_first [OF this, of fsub p] obtain k'
    where k': "closest_first fsub inputs p k'" "py_min_key (\<lambda>x. \<bar>fsub x p\<bar>) inputs = Inr (inputs ! k')"
    by blast
  have "k' = k" using k'(1) assms(3) by (rule closest_first_unique)
  with k'(2) show ?thesis
    by (simp add: smoothing_voter_no_window [OF assms(1,2)])
qed

lemma smoothing_voter_total:
  assumes "3 \<le> length inputs"
  shows "\<exists>r. smoothing_voter fsub inputs prev t st = Inr r"
proof (cases "find (\<lambda>i. fsub (sort inputs ! (i + window_length (length inputs) - 1)) (sort inputs ! i) \<le> t)
           [0..<length inputs - window_length (length inputs) + 1]")
  case (Some i)
  then show ?thesis using smoothing_voter_window [OF assms Some] by simp
next
  case None
  show ?thesis
  proof (cases prev)
    case N: None
    then show ?thesis using smoothing_voter_no_window [OF assms None, of prev st] by simp
  next
    case (Some p)
    have "inputs \<noteq> []" using assms(1) by auto
    from py_min_key_closest_first [OF this, of fsub p] obtain k
      where "closest_first fsub inputs p k" by blast
    from smoothing_voter_smoothed [OF assms None this, of st] Some show ?thesis
      by (cases "\<bar>fsub (inputs ! k) p\<bar> \<le> st") simp_all
  qed
qed

lemma smoothing_voter_result:
  assumes "smoothing_voter fsub inputs prev t st = Inr (val, c)"
  shows "(c = ''median'' \<and> (\<exists>v\<in>set inputs. val = Some v)) \<or>
         (c = ''smoothed'' \<and> prev \<noteq> None \<and> (\<exists>v\<in>set inputs. val = Some v)) \<or>
         (c = ''none'' \<and> prev \<noteq> None \<and> val = None)"
proof -
  let ?n = "length inputs"
  let ?m = "window_length ?n"
  have n3: "3 \<le> ?n"
  proof (rule ccontr)
    assume "\<not> 3 \<le> ?n"
    then have "smoothing_voter fsub inputs prev t st = Inl ValueError"
      by (simp add: smoothing_voter_short)
    with assms show False by simp
  qed
  have b: "0 < ?m" "?m \<le> ?n" using window_length_bounds [OF n3] by simp_all
  show ?thesis
  proof (cases "find (\<lambda>i. fsub (sort inputs ! (i + ?m - 1)) (sort inputs ! i) \<le> t) [0..<?n - ?m + 1]")
    case (Some i)
    from find_upt_Some [OF Some] have "i < ?n - ?m + 1" by blast
    moreover have "?m div 2 < ?m" using b by simp
    ultimately have "i + ?m div 2 < length (sort inputs)" using b by simp
    then have "sort inputs ! (i + ?m div 2) \<in> set (sort inputs)" by (rule nth_mem)
    then have "sort inputs ! (i + ?m div 2) \<in> set inputs" by simp
    with smoothing_voter_window [OF n3 Some, of prev st] assms show ?thesis by auto
  next
    case None
    show ?thesis
    proof (cases prev)
      case N: None
      have "?n div 2 < length (sort inputs)" using n3 by simp
      then have "sort inputs ! (?n div 2) \<in> set (sort inputs)" by (rule nth_mem)
      then have "sort inputs ! (?n div 2) \<in> set inputs" by simp
      with smoothing_voter_no_window [OF n3 None, of prev st] assms N show ?thesis by auto
    next
      case (Some p)
      have "inputs \<noteq> []" using n3 by auto
      from py_min_key_closest_first [OF this, of fsub p] obtain k
        where k: "closest_first fsub inputs p k" by blast
      then have "inputs ! k \<in> set inputs" unfolding closest_first_iff by simp
      with smoothing_voter_smoothed [OF n3 None k, of st] assms Some show ?thesis
        by (cases "\<bar>fsub (inputs ! k) p\<bar> \<le> st") auto
    qed
  qed
qed

subsection \<open>The two paths of \<open>async_update_group_state\<close>\<close>

lemma gather_values_acc:
  "gather_values readings (vals, b) = (vals', b') \<Longrightarrow>
     length vals \<le> length vals' \<and> (b' \<longleftrightarrow> b \<or> length vals < length vals')"
proof (induction readings arbitrary: vals b)
  case Nil
  then show ?case by simp
next
  case (Cons r rest)
  show ?case
  proof (cases r)
    case NoState
    with Cons.prems have "gather_values rest (vals, b) = (vals', b')" by simp
    from Cons.IH [OF this] show ?thesis .
  next
    case Skipped
    with Cons.prems have "gather_values rest (vals, b) = (vals', b')" by simp
    from Cons.IH [OF this] show ?thesis .
  next
    case (Numeric x)
    with Cons.prems have "gather_values rest (vals @ [x], True) = (vals', b')" by simp
    from Cons.IH [OF this] show ?thesis by auto
  qed
qed

lemma gather_values_any_valid:
  assumes "gather_values readings ([], False) = (sensor_values, any_valid)"
  shows "any_valid \<longleftrightarrow> sensor_values \<noteq> []"
  using gather_values_acc [OF assms] by simp

lemma update_unavailable:
  assumes "gather_values readings ([], False) = (sensor_values, any_valid)"
    and "length sensor_values < 3"
  shows "update_group_state_calling voter readings self =
           Inr (self\<lparr>self_attr_available := False, self_attr_native_value := None,
                      self_calculation_type := ''none''\<rparr>)"
  using assms by (simp add: update_group_state_calling_def Let_def)

lemma update_available:
  assumes "gather_values readings ([], False) = (sensor_values, any_valid)"
    and "3 \<le> length sensor_values"
    and "voter sensor_values (self_prev_output self) (self_voter_threshold self)
           (self_smoothing_threshold self) = Inr (new_val, calc_type)"
  shows "update_group_state_calling voter readings self =
           Inr (self\<lparr>self_attr_available := True, self_attr_native_value := new_val,
                      self_calculation_type := calc_type,
                      self_prev_output := (if new_val \<noteq> None then new_val else self_prev_output self)\<rparr>)"
proof -
  have "any_valid" using gather_values_any_valid [OF assms(1)] assms(2) by auto
  then show ?thesis
    using assms by (simp add: update_group_state_calling_def Let_def)
qed

subsection \<open>Evaluation on concrete inputs\<close>

lemmas voter_eval = smoothing_voter_def window_length_def py_range_def py_slice_def
  stable_subset_def py_index_def Let_def upt_rec

section \<open>The claims\<close>

text \<open>
  C1. Whenever \<open>smoothing_voter\<close> returns (which it does only for at least three
  inputs), a value that is not \<open>None\<close> is an element of the input list, whatever the
  previous output and the thresholds are and however the subtraction rounds; the value is
  not \<open>None\<close> exactly when the calculation type is \<open>median\<close> or \<open>smoothed\<close>.
\<close>

theorem smoothing_voter_returns_an_input:
  assumes "smoothing_voter fsub inputs prev_output voter_threshold smoothing_threshold =
             Inr (val, calc_type)"
  shows "(\<forall>v. val = Some v \<longrightarrow> v \<in> set inputs) \<and>
         (val \<noteq> None \<longleftrightarrow> calc_type = ''median'' \<or> calc_type = ''smoothed'')"
  using smoothing_voter_result [OF assms] by auto

text \<open>
  Two runs on readings whose differences are exact in double arithmetic: the nearest
  reading (a tie, the first one wins) and the median of a window.
\<close>

theorem smoothing_voter_returns_an_input_witness:
  "smoothing_voter (-) [10, 21 / 2, 50] (Some (41 / 4)) (1 / 4) 1 = Inr (Some 10, ''smoothed'') \<and>
   (10 :: real) \<in> set [10, 21 / 2, 50] \<and>
   smoothing_voter (-) [50, 10, 21 / 2] None (1 / 2) 1 = Inr (Some (21 / 2), ''median'') \<and>
   (21 / 2 :: real) \<in> set [50, 10, 21 / 2]"
proof -
  have a: "smoothing_voter (-) [10, 21 / 2, 50] (Some (41 / 4)) (1 / 4) 1 = Inr (Some 10, ''smoothed'')"
    by (simp add: voter_eval)
  have b: "smoothing_voter (-) [50, 10, 21 / 2] None (1 / 2) 1 = Inr (Some (21 / 2), ''median'')"
    by (simp add: voter_eval)
  from smoothing_voter_returns_an_input [OF a] smoothing_voter_returns_an_input [OF b] a b
  show ?thesis by simp
qed

text \<open>
  C2. \<open>smoothing_voter\<close> raises \<open>ValueError\<close> (the insufficient-inputs error) if and
  only if it is given fewer than three inputs, and returns a pair if and only if it is given
  at least three, for every previous output and all thresholds.
\<close>

theorem smoothing_voter_raises_iff_short:
  "(smoothing_voter fsub inputs prev_output voter_threshold smoothing_threshold = Inl ValueError
      \<longleftrightarrow> length inputs < 3) \<and>
   ((\<exists>r. smoothing_voter fsub inputs prev_output voter_threshold smoothing_threshold = Inr r)
      \<longleftrightarrow> 3 \<le> length inputs)"
proof (cases "length inputs < 3")
  case True
  then show ?thesis by (simp add: smoothing_voter_short)
next
  case False
  then have "3 \<le> length inputs" by simp
  from smoothing_voter_total [OF this, of fsub prev_output voter_threshold smoothing_threshold] False
  show ?thesis by auto
qed

theorem smoothing_voter_raises_iff_short_witness:
  "smoothing_voter (-) [] None 0 0 = Inl ValueError \<and>
   smoothing_voter (-) [7] (Some 7) 100 100 = Inl ValueError \<and>
   smoothing_voter (-) [7, 7] (Some 7) 100 100 = Inl ValueError \<and>
   (\<exists>r. smoothing_voter (-) [7, 7, 7] None 0 0 = Inr r)"
  using smoothing_voter_raises_iff_short [of "(-)" "[]" None 0 0]
    smoothing_voter_raises_iff_short [of "(-)" "[7]" "Some 7" 100 100]
    smoothing_voter_raises_iff_short [of "(-)" "[7, 7]" "Some 7" 100 100]
    smoothing_voter_raises_iff_short [of "(-)" "[7, 7, 7]" None 0 0]
  by simp

text \<open>
  C3. For at least three inputs, with \<open>n\<close> their number, \<open>m\<close> the window length and
  \<open>sorted_inputs\<close> the inputs in ascending order: if the window at offset \<open>i \<le> n - m\<close>
  passes the test \<open>sorted_inputs[i+m-1] - sorted_inputs[i] <= voter_threshold\<close>, the
  difference being the one Python computes, and no window at a smaller offset passes it,
  the result is \<open>(sorted_inputs[i + m div 2], median)\<close>, whatever the later windows, the
  previous output and the smoothing threshold are.
\<close>

theorem first_qualifying_window_wins:
  assumes "3 \<le> length inputs"
    and "n = length inputs" and "m = window_length n" and "sorted_inputs = sort inputs"
    and "i \<le> n - m"
    and "fsub (sorted_inputs ! (i + m - 1)) (sorted_inputs ! i) \<le> voter_threshold"
    and "\<forall>j<i. \<not> fsub (sorted_inputs ! (j + m - 1)) (sorted_inputs ! j) \<le> voter_threshold"
  shows "smoothing_voter fsub inputs prev_output voter_threshold smoothing_threshold =
           Inr (Some (sorted_inputs ! (i + m div 2)), ''median'')"
proof -
  have "i < n - m + 1" using assms(5) by simp
  from find_upt_first [of i "n - m + 1"
      "\<lambda>i. fsub (sorted_inputs ! (i + m - 1)) (sorted_inputs ! i) \<le> voter_threshold",
      OF this assms(6,7)]
  have "find (\<lambda>i. fsub (sort inputs ! (i + window_length (length inputs) - 1)) (sort inputs ! i)
                 \<le> voter_threshold)
          [0..<length inputs - window_length (length inputs) + 1] = Some i"
    unfolding assms(2,3,4) .
  from smoothing_voter_window [OF assms(1) this] show ?thesis
    unfolding assms(2,3,4) .
qed

text \<open>
  Two runs. In the first the differences are exact and the second window is the first to
  qualify. In the second the subtraction rounds \<open>1 - (-10\<^sup>-\<^sup>1\<^sup>7)\<close> to \<open>1\<close>, as double
  arithmetic does, so that the first window qualifies at threshold \<open>1\<close>.
\<close>

theorem first_qualifying_window_wins_witness:
  "smoothing_voter (-) [21 / 2, 1, 10] (Some 40) (1 / 2) 1 = Inr (Some (21 / 2), ''median'') \<and>
   smoothing_voter (\<lambda>x y. if x = 1 \<and> y = - (1 / 10 ^ 17) then 1 else x - y)
     [- (1 / 10 ^ 17), 1, 2] None 1 1 = Inr (Some 1, ''median'')"
proof -
  have h1: "3 \<le> length [21 / 2, 1, 10 :: real]" by simp
  have h2: "(3::nat) = length [21 / 2, 1, 10 :: real]" by simp
  have h3: "(2::nat) = window_length 3" by (simp add: window_length_def)
  have h4: "[1, 10, 21 / 2] = sort [21 / 2, 1, 10 :: real]" by simp
  have h5: "(1::nat) \<le> 3 - 2" by simp
  have h6: "[1, 10, 21 / 2 :: real] ! (1 + 2 - 1) - [1, 10, 21 / 2] ! 1 \<le> 1 / 2" by simp
  have h7: "\<forall>j<1. \<not> [1, 10, 21 / 2 :: real] ! (j + 2 - 1) - [1, 10, 21 / 2] ! j \<le> 1 / 2" by simp
  from first_qualifying_window_wins [where fsub = "(-)", OF h1 h2 h3 h4 h5 h6 h7, of "Some 40" 1]
  have a: "smoothing_voter (-) [21 / 2, 1, 10] (Some 40) (1 / 2) 1 = Inr (Some (21 / 2), ''median'')"
    by simp
  let ?f = "\<lambda>x y :: real. if x = 1 \<and> y = - (1 / 10 ^ 17) then 1 else x - y"
  have g1: "3 \<le> length [- (1 / 10 ^ 17), 1, 2 :: real]" by simp
  have g2: "(3::nat) = length [- (1 / 10 ^ 17), 1, 2 :: real]" by simp
  have g4: "[- (1 / 10 ^ 17), 1, 2] = sort [- (1 / 10 ^ 17), 1, 2 :: real]" by simp
  have g5: "(0::nat) \<le> 3 - 2" by simp
  have g6: "?f ([- (1 / 10 ^ 17), 1, 2] ! (0 + 2 - 1)) ([- (1 / 10 ^ 17), 1, 2] ! 0) \<le> 1" by simp
  have g7: "\<forall>j<0. \<not> ?f ([- (1 / 10 ^ 17), 1, 2] ! (j + 2 - 1)) ([- (1 / 10 ^ 17), 1, 2] ! j) \<le> 1"
    by simp
  from first_qualifying_window_wins [where fsub = ?f, OF g1 g2 h3 g4 g5 g6 g7, of None 1]
  have b: "smoothing_voter ?f [- (1 / 10 ^ 17), 1, 2] None 1 1 = Inr (Some 1, ''median'')"
    by simp
  from a b show ?thesis by (rule conjI)
qed

text \<open>
  C4, as stated: for inputs \<open>[10.0, 10.05, 50.0]\<close>, voter threshold \<open>0.5\<close>, previous
  output \<open>10.02\<close> and smoothing threshold \<open>1.0\<close> the result would be
  \<open>(10.0, smoothed)\<close>. It is not: with three inputs the window length is two, and the
  window \<open>[10.0, 10.05]\<close> at offset 0 has spread \<open>0.05 \<le> 0.5\<close>.
\<close>

theorem scenario_C_not_smoothed:
  "smoothing_voter (-) [10, 201 / 20, 50] (Some (501 / 50)) (1 / 2) 1 \<noteq> Inr (Some 10, ''smoothed'')"
  by (simp add: voter_eval)

text \<open>
  C4, amended: for those inputs and thresholds the window at offset 0 passes the test of
  line 47 and the result is \<open>(10.05, median)\<close>; with the voter threshold lowered to
  \<open>0.01\<close>, so that no window qualifies, the result is \<open>(10.0, smoothed)\<close>. Both hold
  for every subtraction that is within \<open>0.001\<close> of the exact difference on readings up
  to \<open>100\<close> in absolute value, which the rounding of double arithmetic is by far.
\<close>

theorem scenario_C_median:
  assumes "\<forall>x y. \<bar>x\<bar> \<le> 100 \<longrightarrow> \<bar>y\<bar> \<le> 100 \<longrightarrow> \<bar>fsub x y - (x - y)\<bar> \<le> 1 / 1000"
  shows "stable_subset fsub (py_slice (sort [10, 201 / 20, 50]) 0 (0 + window_length 3)) (1 / 2) = Inr True \<and>
   smoothing_voter fsub [10, 201 / 20, 50] (Some (501 / 50)) (1 / 2) 1 = Inr (Some (201 / 20), ''median'') \<and>
   smoothing_voter fsub [10, 201 / 20, 50] (Some (501 / 50)) (1 / 100) 1 = Inr (Some 10, ''smoothed'')"
proof -
  have e: "\<bar>fsub x y - (x - y)\<bar> \<le> 1 / 1000" if "\<bar>x\<bar> \<le> 100" "\<bar>y\<bar> \<le> 100" for x y
    using assms that by blast
  have a0: "\<bar>fsub (201 / 20) 10 - (201 / 20 - 10)\<bar> \<le> 1 / 1000" by (rule e) simp_all
  have a1: "\<bar>fsub 50 (201 / 20) - (50 - 201 / 20)\<bar> \<le> 1 / 1000" by (rule e) simp_all
  have d0: "\<bar>fsub 10 (501 / 50) - (10 - 501 / 50)\<bar> \<le> 1 / 1000" by (rule e) simp_all
  have d1: "\<bar>fsub (201 / 20) (501 / 50) - (201 / 20 - 501 / 50)\<bar> \<le> 1 / 1000"
    by (rule e) simp_all
  have d2: "\<bar>fsub 50 (501 / 50) - (50 - 501 / 50)\<bar> \<le> 1 / 1000" by (rule e) simp_all
  have w0: "fsub (201 / 20) 10 \<le> 1 / 2" using a0 by linarith
  have n0: "\<not> fsub (201 / 20) 10 \<le> 1 / 100" using a0 by linarith
  have n1: "\<not> fsub 50 (201 / 20) \<le> 1 / 100" using a1 by linarith
  have k1: "\<not> \<bar>fsub (201 / 20) (501 / 50)\<bar> < \<bar>fsub 10 (501 / 50)\<bar>" using d0 d1 by linarith
  have k2: "\<not> \<bar>fsub 50 (501 / 50)\<bar> < \<bar>fsub 10 (501 / 50)\<bar>" using d0 d2 by linarith
  have k3: "\<bar>fsub 10 (501 / 50)\<bar> \<le> 1" using d0 by linarith
  have 1: "stable_subset fsub (py_slice (sort [10, 201 / 20, 50]) 0 (0 + window_length 3)) (1 / 2) = Inr True"
    using w0 by (simp add: voter_eval)
  have 2: "smoothing_voter fsub [10, 201 / 20, 50] (Some (501 / 50)) (1 / 2) 1 = Inr (Some (201 / 20), ''median'')"
    using w0 by (simp add: voter_eval)
  have 3: "smoothing_voter fsub [10, 201 / 20, 50] (Some (501 / 50)) (1 / 100) 1 = Inr (Some 10, ''smoothed'')"
    using n0 n1 k1 k2 k3 by (simp add: voter_eval)
  from 1 2 3 show ?thesis by simp
qed

theorem scenario_C_median_witness:
  "stable_subset (-) (py_slice (sort [10, 201 / 20, 50]) 0 (0 + window_length 3)) (1 / 2) = Inr True \<and>
   smoothing_voter (-) [10, 201 / 20, 50] (Some (501 / 50)) (1 / 2) 1 = Inr (Some (201 / 20), ''median'') \<and>
   smoothing_voter (-) [10, 201 / 20, 50] (Some (501 / 50)) (1 / 100) 1 = Inr (Some 10, ''smoothed'')"
proof -
  have "\<forall>x y :: real. \<bar>x\<bar> \<le> 100 \<longrightarrow> \<bar>y\<bar> \<le> 100 \<longrightarrow> \<bar>(x - y) - (x - y)\<bar> \<le> 1 / 1000" by simp
  from scenario_C_median [where fsub = "(-)", OF this] show ?thesis .
qed

text \<open>
  C5, as stated: for every \<open>n \<ge> 3\<close> the window length is \<open>ceil((n+1)/2)\<close>. For
  \<open>n = 4\<close> the source computes \<open>(4 + 1) // 2 = 2\<close>, while \<open>ceil(5/2) = 3\<close>; and
  the voter does accept a window of two among four inputs: on \<open>[0, 1, 10, 11]\<close> with
  voter threshold 1 it returns the upper element of the window \<open>[0, 1]\<close>, where no window
  of three has spread within 1. (The differences of these integers are exact in double
  arithmetic.)
\<close>

theorem window_length_not_ceiling:
  "(3::nat) \<le> 4 \<and> int (window_length 4) \<noteq> \<lceil>(real 4 + 1) / 2\<rceil> \<and>
   smoothing_voter (-) [0, 1, 10, 11] None 1 1 = Inr (Some 1, ''median'')"
proof -
  have "\<lceil>(5 :: real) / 2\<rceil> = 3" by (simp add: ceiling_eq_iff)
  then have "int (window_length 4) \<noteq> \<lceil>(real 4 + 1) / 2\<rceil>" by (simp add: window_length_def)
  moreover have "smoothing_voter (-) [0, 1, 10, 11] None 1 1 = Inr (Some 1, ''median'')"
    by (simp add: voter_eval)
  ultimately show ?thesis by simp
qed

text \<open>
  C5, amended: for every \<open>n\<close> the window length is \<open>(n + 1) div 2\<close>, the floor of
  \<open>(n+1)/2\<close>, which is the ceiling of \<open>n/2\<close>; it equals \<open>ceil((n+1)/2)\<close> when
  \<open>n\<close> is odd (so \<open>m = 2, 3, 4\<close> for \<open>n = 3, 5, 7\<close>) and is one less when \<open>n\<close> is
  even.
\<close>

theorem window_length_floor:
  "window_length n = (n + 1) div 2 \<and>
   int (window_length n) = \<lfloor>(real n + 1) / 2\<rfloor> \<and>
   int (window_length n) = \<lceil>real n / 2\<rceil> \<and>
   (odd n \<longrightarrow> int (window_length n) = \<lceil>(real n + 1) / 2\<rceil>) \<and>
   (even n \<longrightarrow> int (window_length n) = \<lceil>(real n + 1) / 2\<rceil> - 1) \<and>
   window_length 3 = 2 \<and> window_length 5 = 3 \<and> window_length 7 = 4"
proof (cases "even n")
  case True
  then obtain k where k: "n = 2 * k" by (auto elim: evenE)
  have a: "(real (2 * k) + 1) / 2 = real k + 1 / 2" by simp
  have b: "real (2 * k) / 2 = real k" by simp
  have "\<lfloor>real k + 1 / 2\<rfloor> = int k" by (simp add: floor_eq_iff)
  moreover have "\<lceil>real k + 1 / 2\<rceil> = int k + 1" by (simp add: ceiling_eq_iff)
  moreover have "\<lceil>real k\<rceil> = int k" by simp
  moreover have "window_length (2 * k) = k" by (simp add: window_length_def)
  ultimately show ?thesis using True unfolding k a b by (simp add: window_length_def)
next
  case False
  then obtain k where k: "n = 2 * k + 1" by (auto elim: oddE)
  have a: "(real (2 * k + 1) + 1) / 2 = real (k + 1)" by simp
  have b: "real (2 * k + 1) / 2 = real k + 1 / 2" by simp
  have "\<lfloor>real (k + 1)\<rfloor> = int k + 1" by (simp add: floor_eq_iff)
  moreover have "\<lceil>real (k + 1)\<rceil> = int k + 1" by (simp add: ceiling_eq_iff)
  moreover have "\<lceil>real k + 1 / 2\<rceil> = int k + 1" by (simp add: ceiling_eq_iff)
  moreover have "window_length (2 * k + 1) = k + 1" by (simp add: window_length_def)
  ultimately show ?thesis using False unfolding k a b by (simp add: window_length_def)
qed

theorem window_length_floor_witness:
  "odd (5::nat) \<and> int (window_length 5) = \<lceil>(real 5 + 1) / 2\<rceil> \<and>
   even (4::nat) \<and> int (window_length 4) = \<lceil>(real 4 + 1) / 2\<rceil> - 1 \<and> window_length 4 = 2"
  using window_length_floor [of 5] window_length_floor [of 4] by simp

text \<open>No window passes the test: the loop runs to its end.\<close>

lemma no_window_find:
  assumes "\<forall>i\<le>n - m. \<not> P i"
  shows "find P [0..<n - m + 1] = None"
  using assms by (intro find_upt_none) simp

text \<open>
  C6. For at least three inputs of which no window of length \<open>m\<close> (offsets \<open>0\<close> to
  \<open>n - m\<close>) passes the test \<open>sorted_inputs[i+m-1] - sorted_inputs[i] <= voter_threshold\<close>,
  the difference being the one Python computes, and no previous output, the result is
  \<open>(sorted_inputs[n div 2], median)\<close>: the classification is \<open>median\<close>, there is no
  separate tag for the fallback. For an even \<open>n\<close> the index \<open>n div 2\<close> holds the upper
  of the two middle values.
\<close>

theorem fallback_median_without_previous:
  assumes "3 \<le> length inputs"
    and "n = length inputs" and "m = window_length n" and "sorted_inputs = sort inputs"
    and "\<forall>i\<le>n - m. \<not> fsub (sorted_inputs ! (i + m - 1)) (sorted_inputs ! i) \<le> voter_threshold"
  shows "smoothing_voter fsub inputs None voter_threshold smoothing_threshold =
           Inr (Some (sorted_inputs ! (n div 2)), ''median'')"
proof -
  have "find (\<lambda>i. fsub (sort inputs ! (i + window_length (length inputs) - 1)) (sort inputs ! i)
                 \<le> voter_threshold)
          [0..<length inputs - window_length (length inputs) + 1] = None"
    using no_window_find [OF assms(5)] unfolding assms(2,3,4) .
  from smoothing_voter_no_window [OF assms(1) this, of None smoothing_threshold]
  show ?thesis unfolding assms(2,3,4) by simp
qed

text \<open>
  Two runs with exact differences: three inputs, and four inputs, where the result is the
  third of the sorted values.
\<close>

theorem fallback_median_without_previous_witness:
  "smoothing_voter (-) [50, 10, 21 / 2] None (1 / 4) 1 = Inr (Some (21 / 2), ''median'') \<and>
   smoothing_voter (-) [40, 1, 30, 2] None (1 / 2) 1 = Inr (Some 30, ''median'')"
proof -
  have h1: "3 \<le> length [50, 10, 21 / 2 :: real]" by simp
  have h2: "(3::nat) = length [50, 10, 21 / 2 :: real]" by simp
  have h3: "(2::nat) = window_length 3" by (simp add: window_length_def)
  have h4: "[10, 21 / 2, 50] = sort [50, 10, 21 / 2 :: real]" by simp
  have h5: "\<forall>i\<le>3 - 2. \<not> [10, 21 / 2, 50 :: real] ! (i + 2 - 1) - [10, 21 / 2, 50] ! i \<le> 1 / 4"
  proof (intro allI impI)
    fix i :: nat assume "i \<le> 3 - 2"
    then consider "i = 0" | "i = 1" by fastforce
    then show "\<not> [10, 21 / 2, 50 :: real] ! (i + 2 - 1) - [10, 21 / 2, 50] ! i \<le> 1 / 4"
      by cases simp_all
  qed
  from fallback_median_without_previous [where fsub = "(-)", OF h1 h2 h3 h4 h5, of 1]
  have a: "smoothing_voter (-) [50, 10, 21 / 2] None (1 / 4) 1 = Inr (Some (21 / 2), ''median'')"
    by simp
  have g1: "3 \<le> length [40, 1, 30, 2 :: real]" by simp
  have g2: "(4::nat) = length [40, 1, 30, 2 :: real]" by simp
  have g3: "(2::nat) = window_length 4" by (simp add: window_length_def)
  have g4: "[1, 2, 30, 40] = sort [40, 1, 30, 2 :: real]" by simp
  have g5: "\<forall>i\<le>4 - 2. \<not> [1, 2, 30, 40 :: real] ! (i + 2 - 1) - [1, 2, 30, 40] ! i \<le> 1 / 2"
  proof (intro allI impI)
    fix i :: nat assume "i \<le> 4 - 2"
    then consider "i = 0" | "i = 1" | "i = 2" by fastforce
    then show "\<not> [1, 2, 30, 40 :: real] ! (i + 2 - 1) - [1, 2, 30, 40] ! i \<le> 1 / 2"
      by cases simp_all
  qed
  from fallback_median_without_previous [where fsub = "(-)", OF g1 g2 g3 g4 g5, of 1]
  have b: "smoothing_voter (-) [40, 1, 30, 2] None (1 / 2) 1 = Inr (Some 30, ''median'')"
    by simp
  from a b show ?thesis by (rule conjI)
qed

text \<open>
  C7. For at least three inputs of which no window passes the test of line 47, and a
  previous output \<open>p\<close>: there is an index \<open>k\<close> holding an input at minimum absolute
  distance to \<open>p\<close>, first among those in the original input order, and for that \<open>k\<close>
  the result is \<open>(inputs[k], smoothed)\<close> if the distance of \<open>inputs[k]\<close> is at most the
  smoothing threshold and \<open>(None, none)\<close> otherwise. Differences and distances are the
  ones Python computes.
\<close>

theorem nearest_to_previous_or_none:
  assumes "3 \<le> length inputs"
    and "n = length inputs" and "m = window_length n" and "sorted_inputs = sort inputs"
    and "\<forall>i\<le>n - m. \<not> fsub (sorted_inputs ! (i + m - 1)) (sorted_inputs ! i) \<le> voter_threshold"
  shows "(\<exists>k. closest_first fsub inputs p k) \<and>
         (\<forall>k. closest_first fsub inputs p k \<longrightarrow>
            smoothing_voter fsub inputs (Some p) voter_threshold smoothing_threshold =
              (if \<bar>fsub (inputs ! k) p\<bar> \<le> smoothing_threshold
               then Inr (Some (inputs ! k), ''smoothed'')
               else Inr (None, ''none'')))"
proof -
  have f: "find (\<lambda>i. fsub (sort inputs ! (i + window_length (length inputs) - 1)) (sort inputs ! i)
                 \<le> voter_threshold)
          [0..<length inputs - window_length (length inputs) + 1] = None"
    using no_window_find [OF assms(5)] unfolding assms(2,3,4) .
  have "inputs \<noteq> []" using assms(1) by auto
  from py_min_key_closest_first [OF this, of fsub p]
  have "\<exists>k. closest_first fsub inputs p k" by blast
  moreover have "\<forall>k. closest_first fsub inputs p k \<longrightarrow>
            smoothing_voter fsub inputs (Some p) voter_threshold smoothing_threshold =
              (if \<bar>fsub (inputs ! k) p\<bar> \<le> smoothing_threshold
               then Inr (Some (inputs ! k), ''smoothed'')
               else Inr (None, ''none''))"
    using smoothing_voter_smoothed [OF assms(1) f] by blast
  ultimately show ?thesis by blast
qed

text \<open>
  Runs with exact differences on \<open>[11, 9, 50]\<close> and previous output \<open>10\<close>: the first two
  inputs are at the same distance and the first one is taken; with the smoothing
  threshold below that distance the result is \<open>(None, none)\<close>. And a run where the
  subtraction rounds as double arithmetic does at \<open>2\<cdot>10\<^sup>1\<^sup>6\<close>, so that \<open>1\<close> and \<open>2\<close> are at the
  same computed distance from the previous output and the first of them is taken.
\<close>

theorem nearest_to_previous_or_none_witness:
  "closest_first (-) [11, 9, 50] 10 0 \<and>
   smoothing_voter (-) [11, 9, 50] (Some 10) (1 / 2) 1 = Inr (Some 11, ''smoothed'') \<and>
   smoothing_voter (-) [11, 9, 50] (Some 10) (1 / 2) (1 / 2) = Inr (None, ''none'') \<and>
   smoothing_voter
     (\<lambda>x y. if y = 2 * 10 ^ 16 \<and> (x = 1 \<or> x = 2) then - (2 * 10 ^ 16)
            else if x = 10 ^ 17 \<and> y = 2 then 10 ^ 17 else x - y)
     [1, 2, 10 ^ 17] (Some (2 * 10 ^ 16)) (1 / 2) (3 * 10 ^ 16) = Inr (Some 1, ''smoothed'')"
proof -
  have h1: "3 \<le> length [11, 9, 50 :: real]" by simp
  have h2: "(3::nat) = length [11, 9, 50 :: real]" by simp
  have h3: "(2::nat) = window_length 3" by (simp add: window_length_def)
  have h4: "[9, 11, 50] = sort [11, 9, 50 :: real]" by simp
  have h5: "\<forall>i\<le>3 - 2. \<not> [9, 11, 50 :: real] ! (i + 2 - 1) - [9, 11, 50] ! i \<le> 1 / 2"
  proof (intro allI impI)
    fix i :: nat assume "i \<le> 3 - 2"
    then consider "i = 0" | "i = 1" by fastforce
    then show "\<not> [9, 11, 50 :: real] ! (i + 2 - 1) - [9, 11, 50] ! i \<le> 1 / 2"
      by cases simp_all
  qed
  have c0: "closest_first (-) [11, 9, 50] 10 0"
    unfolding closest_first_iff
  proof (intro conjI allI impI)
    fix j :: nat assume "j < length [11, 9, 50 :: real]"
    then consider "j = 0" | "j = 1" | "j = 2" by fastforce
    then show "\<bar>[11, 9, 50] ! 0 - 10\<bar> \<le> \<bar>[11, 9, 50 :: real] ! j - 10\<bar>"
      by cases simp_all
  qed simp_all
  from nearest_to_previous_or_none [where fsub = "(-)", OF h1 h2 h3 h4 h5, of 10 1] c0
  have a: "smoothing_voter (-) [11, 9, 50] (Some 10) (1 / 2) 1 = Inr (Some 11, ''smoothed'')"
    by simp
  from nearest_to_previous_or_none [where fsub = "(-)", OF h1 h2 h3 h4 h5, of 10 "1 / 2"] c0
  have b: "smoothing_voter (-) [11, 9, 50] (Some 10) (1 / 2) (1 / 2) = Inr (None, ''none'')"
    by simp
  let ?f = "\<lambda>x y :: real. if y = 2 * 10 ^ 16 \<and> (x = 1 \<or> x = 2) then - (2 * 10 ^ 16)
            else if x = 10 ^ 17 \<and> y = 2 then 10 ^ 17 else x - y"
  have th1: "3 \<le> length [1, 2, 10 ^ 17 :: real]" by simp
  have th2: "(3::nat) = length [1, 2, 10 ^ 17 :: real]" by simp
    have th4: "[1, 2, 10 ^ 17] = sort [1, 2, 10 ^ 17 :: real]" by simp
  have th5: "\<forall>i\<le>3 - 2. \<not> ?f ([1, 2, 10 ^ 17] ! (i + 2 - 1)) ([1, 2, 10 ^ 17] ! i) \<le> 1 / 2"
  proof (intro allI impI)
    fix i :: nat assume "i \<le> 3 - 2"
    then consider "i = 0" | "i = 1" by fastforce
    then show "\<not> ?f ([1, 2, 10 ^ 17] ! (i + 2 - 1)) ([1, 2, 10 ^ 17] ! i) \<le> 1 / 2"
      by cases simp_all
  qed
  have tc0: "closest_first ?f [1, 2, 10 ^ 17] (2 * 10 ^ 16) 0"
    unfolding closest_first_iff
  proof (intro conjI allI impI)
    fix j :: nat assume "j < length [1, 2, 10 ^ 17 :: real]"
    then consider "j = 0" | "j = 1" | "j = 2" by fastforce
    then show "\<bar>?f ([1, 2, 10 ^ 17] ! 0) (2 * 10 ^ 16)\<bar> \<le> \<bar>?f ([1, 2, 10 ^ 17] ! j) (2 * 10 ^ 16)\<bar>"
      by cases simp_all
  qed simp_all
  from nearest_to_previous_or_none [where fsub = ?f, OF th1 th2 h3 th4 th5,
      of "2 * 10 ^ 16" "3 * 10 ^ 16"] tc0
  have t: "smoothing_voter ?f [1, 2, 10 ^ 17] (Some (2 * 10 ^ 16)) (1 / 2) (3 * 10 ^ 16) =
             Inr (Some 1, ''smoothed'')"
    by simp
  from c0 a b t show ?thesis by (intro conjI)
qed

text \<open>
  C9. For at least three inputs, a window offset \<open>i \<le> n - m\<close> and thresholds
  \<open>t1 \<le> t2\<close>: when the window at offset \<open>i\<close> passes the test of line 47 under voter
  threshold \<open>t1\<close>, its spread \<open>sorted_inputs[i+m-1] - sorted_inputs[i]\<close>, as Python
  computes it, is at most \<open>t1\<close> and the window passes the test under \<open>t2\<close>.
\<close>

theorem window_acceptance_monotone:
  assumes "3 \<le> length inputs"
    and "n = length inputs" and "m = window_length n" and "sorted_inputs = sort inputs"
    and "i \<le> n - m"
    and "t1 \<le> t2"
    and "stable_subset fsub (py_slice sorted_inputs i (i + m)) t1 = Inr True"
  shows "fsub (sorted_inputs ! (i + m - 1)) (sorted_inputs ! i) \<le> t1 \<and>
         stable_subset fsub (py_slice sorted_inputs i (i + m)) t2 = Inr True"
proof -
  have b: "0 < m" "m \<le> n" using window_length_bounds [OF assms(1)] assms(2,3) by simp_all
  have s: "sorted sorted_inputs" unfolding assms(4) by simp
  have l: "i + m \<le> length sorted_inputs" using assms(2,4,5) b by simp
  have spread: "\<And>t. stable_subset fsub (py_slice sorted_inputs i (i + m)) t =
                  Inr (fsub (sorted_inputs ! (i + m - 1)) (sorted_inputs ! i) \<le> t)"
    using stable_subset_window [OF s b(1) l] .
  from assms(7) have 1: "fsub (sorted_inputs ! (i + m - 1)) (sorted_inputs ! i) \<le> t1"
    unfolding spread by simp
  with assms(6) have "fsub (sorted_inputs ! (i + m - 1)) (sorted_inputs ! i) \<le> t2" by linarith
  then have "stable_subset fsub (py_slice sorted_inputs i (i + m)) t2 = Inr True"
    unfolding spread by simp
  with 1 show ?thesis by (rule conjI)
qed

text \<open>A run with exact differences: the window \<open>[10, 10.5]\<close> under thresholds \<open>0.5\<close> and \<open>1\<close>.\<close>

theorem window_acceptance_monotone_witness:
  "stable_subset (-) (py_slice [10, 21 / 2, 50] 0 (0 + 2)) (1 / 2) = Inr True \<and>
   [10, 21 / 2, 50 :: real] ! (0 + 2 - 1) - [10, 21 / 2, 50] ! 0 \<le> 1 / 2 \<and>
   stable_subset (-) (py_slice [10, 21 / 2, 50] 0 (0 + 2)) 1 = Inr True"
proof -
  have h1: "3 \<le> length [50, 10, 21 / 2 :: real]" by simp
  have h2: "(3::nat) = length [50, 10, 21 / 2 :: real]" by simp
  have h3: "(2::nat) = window_length 3" by (simp add: window_length_def)
  have h4: "[10, 21 / 2, 50] = sort [50, 10, 21 / 2 :: real]" by simp
  have h5: "(0::nat) \<le> 3 - 2" by simp
  have h6: "(1 / 2 :: real) \<le> 1" by simp
  have h7: "stable_subset (-) (py_slice [10, 21 / 2, 50] 0 (0 + 2)) (1 / 2) = Inr True"
    by (simp add: stable_subset_def py_slice_def)
  from window_acceptance_monotone [where fsub = "(-)", OF h1 h2 h3 h4 h5 h6 h7] h7
  show ?thesis by simp
qed

text \<open>
  C8. Every run of \<open>async_update_group_state\<close> ends normally. When it calls the voter
  (at least three values gathered), the voter returns a pair, the native value and the
  calculation type are set to it, and \<open>_prev_output\<close> becomes the returned value when
  that is not \<open>None\<close> and keeps its old value when it is \<open>None\<close>. On every path, a
  calculation type \<open>none\<close> afterwards means that the native value is \<open>None\<close> and
  \<open>_prev_output\<close> is unchanged.
\<close>

theorem previous_output_overwritten_iff_value:
  assumes "gather_values readings ([], False) = (sensor_values, any_valid)"
  shows "\<exists>self'. async_update_group_state fsub readings self = Inr self' \<and>
           (self_calculation_type self' = ''none'' \<longrightarrow>
              self_attr_native_value self' = None \<and>
              self_prev_output self' = self_prev_output self) \<and>
           (3 \<le> length sensor_values \<longrightarrow>
              (\<exists>new_val calc_type.
                 smoothing_voter fsub sensor_values (self_prev_output self)
                   (self_voter_threshold self) (self_smoothing_threshold self) =
                   Inr (new_val, calc_type) \<and>
                 self_attr_native_value self' = new_val \<and>
                 self_calculation_type self' = calc_type \<and>
                 self_prev_output self' =
                   (case new_val of Some v \<Rightarrow> Some v | None \<Rightarrow> self_prev_output self)))"
proof (cases "length sensor_values < 3")
  case True
  from update_unavailable [OF assms True, of "smoothing_voter fsub" self] True
  show ?thesis by (simp add: async_update_group_state_def)
next
  case False
  then have n3: "3 \<le> length sensor_values" by simp
  from smoothing_voter_total [OF n3] obtain new_val calc_type
    where r: "smoothing_voter fsub sensor_values (self_prev_output self)
                (self_voter_threshold self) (self_smoothing_threshold self) = Inr (new_val, calc_type)"
    by (metis surj_pair)
  from smoothing_voter_result [OF r]
  have none: "calc_type = ''none'' \<longrightarrow> new_val = None" by auto
  from update_available [where voter = "smoothing_voter fsub", OF assms n3 r] r none
  show ?thesis
    by (cases new_val) (simp_all add: async_update_group_state_def)
qed

text \<open>
  Two runs with exact differences from the same state, previous output \<open>30\<close>: one where
  the voter returns \<open>(None, none)\<close>, one where it returns \<open>(10.5, median)\<close>.
\<close>

theorem previous_output_overwritten_iff_value_witness:
  "(\<exists>self'. async_update_group_state (-) [Numeric 10, NoState, Numeric (21 / 2), Skipped, Numeric 50]
       \<lparr>self_voter_threshold = 1 / 4, self_smoothing_threshold = 1,
        self_prev_output = Some 30, self_calculation_type = ''median'',
        self_attr_available = True, self_attr_native_value = Some 30\<rparr> = Inr self' \<and>
      self_calculation_type self' = ''none'' \<and> self_attr_native_value self' = None \<and>
      self_prev_output self' = Some 30) \<and>
   (\<exists>self'. async_update_group_state (-) [Numeric 10, NoState, Numeric (21 / 2), Skipped, Numeric 50]
       \<lparr>self_voter_threshold = 1 / 2, self_smoothing_threshold = 1,
        self_prev_output = Some 30, self_calculation_type = ''median'',
        self_attr_available = True, self_attr_native_value = Some 30\<rparr> = Inr self' \<and>
      self_calculation_type self' = ''median'' \<and> self_attr_native_value self' = Some (21 / 2) \<and>
      self_prev_output self' = Some (21 / 2))"
proof -
  have g: "gather_values [Numeric 10, NoState, Numeric (21 / 2), Skipped, Numeric 50] ([], False) =
             ([10, 21 / 2, 50], True)" by simp
  have a: "smoothing_voter (-) [10, 21 / 2, 50] (Some 30) (1 / 4) 1 = Inr (None, ''none'')"
    by (simp add: voter_eval)
  have b: "smoothing_voter (-) [10, 21 / 2, 50] (Some 30) (1 / 2) 1 = Inr (Some (21 / 2), ''median'')"
    by (simp add: voter_eval)
  from previous_output_overwritten_iff_value [OF g, where fsub = "(-)" and
      self = "\<lparr>self_voter_threshold = 1 / 4, self_smoothing_threshold = 1,
        self_prev_output = Some 30, self_calculation_type = ''median'',
        self_attr_available = True, self_attr_native_value = Some 30\<rparr>"] a
  have 1: "\<exists>self'. async_update_group_state (-) [Numeric 10, NoState, Numeric (21 / 2), Skipped, Numeric 50]
       \<lparr>self_voter_threshold = 1 / 4, self_smoothing_threshold = 1,
        self_prev_output = Some 30, self_calculation_type = ''median'',
        self_attr_available = True, self_attr_native_value = Some 30\<rparr> = Inr self' \<and>
      self_calculation_type self' = ''none'' \<and> self_attr_native_value self' = None \<and>
      self_prev_output self' = Some 30"
    by (simp add: g) blast
  from previous_output_overwritten_iff_value [OF g, where fsub = "(-)" and
      self = "\<lparr>self_voter_threshold = 1 / 2, self_smoothing_threshold = 1,
        self_prev_output = Some 30, self_calculation_type = ''median'',
        self_attr_available = True, self_attr_native_value = Some 30\<rparr>"] b
  have 2: "\<exists>self'. async_update_group_state (-) [Numeric 10, NoState, Numeric (21 / 2), Skipped, Numeric 50]
       \<lparr>self_voter_threshold = 1 / 2, self_smoothing_threshold = 1,
        self_prev_output = Some 30, self_calculation_type = ''median'',
        self_attr_available = True, self_attr_native_value = Some 30\<rparr> = Inr self' \<and>
      self_calculation_type self' = ''median'' \<and> self_attr_native_value self' = Some (21 / 2) \<and>
      self_prev_output self' = Some (21 / 2)"
    by (simp add: g) blast
  from 1 2 show ?thesis by (rule conjI)
qed

text \<open>The method consults the function it calls at one point only, and only when three
  or more values were gathered.\<close>

lemma update_depends_on_one_call:
  assumes "gather_values readings ([], False) = (sensor_values, any_valid)"
    and "3 \<le> length sensor_values"
    and "voter sensor_values (self_prev_output self) (self_voter_threshold self)
           (self_smoothing_threshold self) =
         voter' sensor_values (self_prev_output self) (self_voter_threshold self)
           (self_smoothing_threshold self)"
  shows "update_group_state_calling voter readings self =
         update_group_state_calling voter' readings self"
  using assms by (simp add: update_group_state_calling_def Let_def)

text \<open>
  C10. When fewer than three numeric readings are gathered, the method ends at line 129
  with the native value \<open>None\<close>, the calculation type \<open>none\<close> and every other field, in
  particular \<open>_prev_output\<close>, as before, and it does so whatever the function called at
  line 132 would return or raise: that function is not called. When three or more are
  gathered, the method consults that function only at the gathered values, the stored
  previous output and the two thresholds, where \<open>smoothing_voter\<close> returns a pair; so
  \<open>smoothing_voter\<close> is called with at least three inputs only, the
  \<open>except ValueError\<close> branch of line 142 is never taken, and no exception leaves the
  method.
\<close>

theorem voter_called_with_three_or_more:
  assumes "gather_values readings ([], False) = (sensor_values, any_valid)"
  shows "(length sensor_values < 3 \<longrightarrow>
            (\<forall>voter. update_group_state_calling voter readings self =
               Inr (self\<lparr>self_attr_available := False, self_attr_native_value := None,
                          self_calculation_type := ''none''\<rparr>))) \<and>
         (\<not> length sensor_values < 3 \<longrightarrow>
            any_valid \<and>
            (\<exists>r. smoothing_voter fsub sensor_values (self_prev_output self)
                    (self_voter_threshold self) (self_smoothing_threshold self) = Inr r) \<and>
            (\<forall>voter.
               voter sensor_values (self_prev_output self) (self_voter_threshold self)
                 (self_smoothing_threshold self) =
               smoothing_voter fsub sensor_values (self_prev_output self)
                 (self_voter_threshold self) (self_smoothing_threshold self) \<longrightarrow>
               update_group_state_calling voter readings self =
               async_update_group_state fsub readings self)) \<and>
         (\<exists>self'. async_update_group_state fsub readings self = Inr self' \<and>
            (length sensor_values < 3 \<longrightarrow> self_prev_output self' = self_prev_output self))"
proof (cases "length sensor_values < 3")
  case True
  have "\<forall>voter. update_group_state_calling voter readings self =
               Inr (self\<lparr>self_attr_available := False, self_attr_native_value := None,
                          self_calculation_type := ''none''\<rparr>)"
    using update_unavailable [OF assms True] by blast
  then show ?thesis using True by (simp add: async_update_group_state_def)
next
  case False
  then have n3: "3 \<le> length sensor_values" by simp
  then have v: "any_valid" using gather_values_any_valid [OF assms] by auto
  from smoothing_voter_total [OF n3] obtain new_val calc_type
    where r: "smoothing_voter fsub sensor_values (self_prev_output self)
                (self_voter_threshold self) (self_smoothing_threshold self) = Inr (new_val, calc_type)"
    by (metis surj_pair)
  have one: "\<forall>voter.
               voter sensor_values (self_prev_output self) (self_voter_threshold self)
                 (self_smoothing_threshold self) =
               smoothing_voter fsub sensor_values (self_prev_output self)
                 (self_voter_threshold self) (self_smoothing_threshold self) \<longrightarrow>
               update_group_state_calling voter readings self =
               async_update_group_state fsub readings self"
    unfolding async_update_group_state_def
    using update_depends_on_one_call [OF assms n3] by blast
  have "\<exists>self'. async_update_group_state fsub readings self = Inr self'"
    using update_available [where voter = "smoothing_voter fsub", OF assms n3 r]
    by (simp add: async_update_group_state_def)
  with one r v False show ?thesis by simp
qed

text \<open>
  Two readings gathered: the same final state with a function that would raise
  \<open>IndexError\<close>, which line 142 does not catch, in the place of the voter, and with the
  voter itself. Three readings gathered: the voter returns a pair.
\<close>

theorem voter_called_with_three_or_more_witness:
  "update_group_state_calling (\<lambda>inputs prev_output voter_threshold smoothing_threshold. Inl IndexError)
       [Numeric 10, NoState, Skipped, Numeric 50]
       \<lparr>self_voter_threshold = 1 / 2, self_smoothing_threshold = 1,
        self_prev_output = Some 30, self_calculation_type = ''median'',
        self_attr_available = True, self_attr_native_value = Some 30\<rparr> =
     Inr \<lparr>self_voter_threshold = 1 / 2, self_smoothing_threshold = 1,
        self_prev_output = Some 30, self_calculation_type = ''none'',
        self_attr_available = False, self_attr_native_value = None\<rparr> \<and>
   update_group_state_calling (smoothing_voter (-))
       [Numeric 10, NoState, Skipped, Numeric 50]
       \<lparr>self_voter_threshold = 1 / 2, self_smoothing_threshold = 1,
        self_prev_output = Some 30, self_calculation_type = ''median'',
        self_attr_available = True, self_attr_native_value = Some 30\<rparr> =
     Inr \<lparr>self_voter_threshold = 1 / 2, self_smoothing_threshold = 1,
        self_prev_output = Some 30, self_calculation_type = ''none'',
        self_attr_available = False, self_attr_native_value = None\<rparr> \<and>
   (\<exists>r. smoothing_voter (-) [10, 21 / 2, 50] (Some 30) (1 / 2) 1 = Inr r)"
proof -
  let ?self = "\<lparr>self_voter_threshold = 1 / 2, self_smoothing_threshold = 1,
        self_prev_output = Some 30, self_calculation_type = ''median'',
        self_attr_available = True, self_attr_native_value = Some (30 :: real)\<rparr>"
  have g2: "gather_values [Numeric 10, NoState, Skipped, Numeric 50] ([], False) = ([10, 50], True)"
    by simp
  have g3: "gather_values [Numeric 10, NoState, Numeric (21 / 2), Skipped, Numeric 50] ([], False) =
             ([10, 21 / 2, 50], True)" by simp
  from voter_called_with_three_or_more [OF g2, where self = ?self and fsub = "(-)"]
  have all: "\<forall>voter. update_group_state_calling voter [Numeric 10, NoState, Skipped, Numeric 50] ?self =
     Inr \<lparr>self_voter_threshold = 1 / 2, self_smoothing_threshold = 1,
        self_prev_output = Some 30, self_calculation_type = ''none'',
        self_attr_available = False, self_attr_native_value = None\<rparr>"
    by simp
  from voter_called_with_three_or_more [OF g3, where self = ?self and fsub = "(-)"]
  have 3: "\<exists>r. smoothing_voter (-) [10, 21 / 2, 50] (Some 30) (1 / 2) 1 = Inr r"
    by simp
  from all have 1: "update_group_state_calling
       (\<lambda>inputs prev_output voter_threshold smoothing_threshold. Inl IndexError)
       [Numeric 10, NoState, Skipped, Numeric 50] ?self =
     Inr \<lparr>self_voter_threshold = 1 / 2, self_smoothing_threshold = 1,
        self_prev_output = Some 30, self_calculation_type = ''none'',
        self_attr_available = False, self_attr_native_value = None\<rparr>" by (rule spec)
  from all have 2: "update_group_state_calling (smoothing_voter (-))
       [Numeric 10, NoState, Skipped, Numeric 50] ?self =
     Inr \<lparr>self_voter_threshold = 1 / 2, self_smoothing_threshold = 1,
        self_prev_output = Some 30, self_calculation_type = ''none'',
        self_attr_available = False, self_attr_native_value = None\<rparr>" by (rule spec)
  from 1 2 3 show ?thesis by (intro conjI)
qed

end
